theory Spec2Isabelle
  imports Complex_Main
begin

section \<open>Values, exceptions and the outside world\<close>

text \<open>
  The handler of \<^verbatim>\<open>lambda_function.py\<close> receives an arbitrary JSON value as its event.
  A dictionary is an association list read with \<open>map_of\<close>; numbers are Python's \<open>int\<close>
  and \<open>float\<close> (a finite float is a rational number, and comparison agrees; the
  non-finite floats are left out).
\<close>

datatype pyval =
    PNone
  | PBool bool
  | PInt int
  | PFloat rat
  | PStr string
  | PList "pyval list"
  | PDict "(string \<times> pyval) list"

text \<open>Python's truth value of an object, as tested by \<^verbatim>\<open>if x:\<close> and \<^verbatim>\<open>not x\<close>.\<close>

fun truthy :: "pyval \<Rightarrow> bool" where
  "truthy PNone = False"
| "truthy (PBool b) = b"
| "truthy (PInt i) = (i \<noteq> 0)"
| "truthy (PFloat x) = (x \<noteq> 0)"
| "truthy (PStr s) = (s \<noteq> [])"
| "truthy (PList xs) = (xs \<noteq> [])"
| "truthy (PDict kvs) = (kvs \<noteq> [])"

fun type_name :: "pyval \<Rightarrow> string" where
  "type_name PNone = ''NoneType''"
| "type_name (PBool b) = ''bool''"
| "type_name (PInt i) = ''int''"
| "type_name (PFloat x) = ''float''"
| "type_name (PStr s) = ''str''"
| "type_name (PList xs) = ''list''"
| "type_name (PDict kvs) = ''dict''"

text \<open>
  The exceptions that can be raised inside the handler. \<open>ServiceError\<close> is whatever the
  generation service's client raises, with its message.
\<close>

datatype exn =
    KeyError string
  | AttributeError string
  | ValueError string
  | JSONDecodeError string
  | ServiceError string

text \<open>\<^verbatim>\<open>str(e)\<close>: a \<^verbatim>\<open>KeyError\<close> prints the representation of the missing key.\<close>

fun str_exn :: "exn \<Rightarrow> string" where
  "str_exn (KeyError k) = [CHR 0x27] @ k @ [CHR 0x27]"
| "str_exn (AttributeError m) = m"
| "str_exn (ValueError m) = m"
| "str_exn (JSONDecodeError m) = m"
| "str_exn (ServiceError m) = m"

text \<open>\<^verbatim>\<open>d.get(k)\<close>: only a dictionary has the method; a missing key gives \<^verbatim>\<open>None\<close>.\<close>

fun py_get :: "pyval \<Rightarrow> string \<Rightarrow> exn + pyval" where
  "py_get (PDict kvs) k = Inr (case map_of kvs k of None \<Rightarrow> PNone | Some v \<Rightarrow> v)"
| "py_get v k =
     Inl (AttributeError ([CHR 0x27] @ type_name v @ [CHR 0x27] @ '' object has no attribute ''
            @ [CHR 0x27] @ ''get'' @ [CHR 0x27]))"

subsection \<open>The response of the generation service\<close>

text \<open>
  The service client returns a parsed structure: every member has the type of the service's
  response shape, and any member may be absent (\<open>None\<close> is "key not in the dictionary").
\<close>

record s3_location =
  s3_uri :: "string option"

record ref_location =
  s3Location :: "s3_location option"

record ref_content =
  content_text :: "string option"

record retrieved_reference =
  location :: "ref_location option"
  content :: "ref_content option"
  ref_score :: "rat option"

record citation =
  retrievedReferences :: "retrieved_reference list option"

record kb_output =
  output_text :: "string option"

record kb_response =
  citations :: "citation list option"
  kb_output :: "kb_output option"
  resp_sessionId :: "string option"

subsection \<open>Requests to the two services, and the world\<close>

text \<open>
  The request to the generation service. The remaining members of the source's
  \<^verbatim>\<open>retrieve_request\<close> (inference configuration, prompt template, query decomposition) are
  literals that do not depend on the event.
\<close>

record kb_request =
  input_text :: pyval
  knowledgeBaseId :: string
  modelArn :: string
  numberOfResults :: nat
  overrideSearchType :: string
  req_sessionId :: "pyval option"

text \<open>The parameters of one call to the storage client's signing operation.\<close>

record sign_request =
  ClientMethod :: string
  Bucket :: string
  Key :: string
  ResponseContentDisposition :: string
  ExpiresIn :: nat

text \<open>
  What the code touches outside itself: the calls it makes to the two services, in order,
  and the lines it prints.
\<close>

record world =
  kb_calls :: "kb_request list"
  s3_calls :: "sign_request list"
  printed :: "string list"

text \<open>
  The collaborators and the configuration, as parameters. A service answers with \<open>Inr\<close> or
  raises with a message (\<open>Inl\<close>). \<open>urlparse\<close> gives the network location and the path,
  or raises \<^verbatim>\<open>ValueError\<close> as Python's does on a host with an unmatched bracket.
  \<open>utcnow\<close> is the clock reading, in seconds.
\<close>

record env =
  json_loads :: "string \<Rightarrow> string + pyval"
  json_dumps :: "pyval \<Rightarrow> string"
  urlparse :: "string \<Rightarrow> string + (string \<times> string)"
  s3_generate_presigned_url :: "sign_request \<Rightarrow> string + string"
  retrieve_and_generate :: "kb_request \<Rightarrow> string + kb_response"
  utcnow :: int
  knowledgeBaseID :: string
  fundation_model_ARN :: string

definition py_print :: "world \<Rightarrow> string \<Rightarrow> world" where
  "py_print w line = w\<lparr>printed := printed w @ [line]\<rparr>"

section \<open>Link materializer and reference enricher\<close>

text \<open>An entry of the reference list: the dictionary built by the extractor, to which the
  enricher adds \<^verbatim>\<open>presigned_url\<close>. \<open>None\<close> is an absent key.\<close>

record reference =
  uri :: "string option"
  snippet :: string
  score :: rat
  presigned_url :: "string option"

definition default_expiration :: nat where
  "default_expiration = 1800"

definition generate_presigned_url ::
  "env \<Rightarrow> world \<Rightarrow> string \<Rightarrow> string \<Rightarrow> nat \<Rightarrow> string option \<times> world" where
  "generate_presigned_url e w bucket key expiration =
     (let req = \<lparr>ClientMethod = ''get_object'', Bucket = bucket, Key = key,
                  ResponseContentDisposition = ''inline'', ExpiresIn = expiration\<rparr>;
          w1 = w\<lparr>s3_calls := s3_calls w @ [req]\<rparr>
      in case s3_generate_presigned_url e req of
           Inr url \<Rightarrow> (Some url, w1)
         | Inl msg \<Rightarrow> (None, py_print w1 (''Error generating presigned URL: '' @ msg)))"

text \<open>\<^verbatim>\<open>netloc.split('.')[0]\<close> and \<^verbatim>\<open>path.lstrip('/')\<close>.\<close>

definition bucket_of :: "string \<Rightarrow> string" where
  "bucket_of netloc = takeWhile (\<lambda>c. c \<noteq> CHR ''.'') netloc"

definition key_of :: "string \<Rightarrow> string" where
  "key_of path = dropWhile (\<lambda>c. c = CHR ''/'') path"

text \<open>The loop of \<^verbatim>\<open>process_s3_urls\<close>, with \<open>processed_refs\<close> as accumulator.\<close>

fun process_loop ::
  "env \<Rightarrow> world \<Rightarrow> reference list \<Rightarrow> reference list \<Rightarrow> (exn + reference list) \<times> world" where
  "process_loop e w [] processed_refs = (Inr processed_refs, w)"
| "process_loop e w (ref # refs) processed_refs =
     (case uri ref of
        None \<Rightarrow> process_loop e w refs processed_refs
      | Some s3_url \<Rightarrow>
          (case urlparse e s3_url of
             Inl msg \<Rightarrow> (Inl (ValueError msg), w)
           | Inr (netloc, path) \<Rightarrow>
               (case generate_presigned_url e w (bucket_of netloc) (key_of path)
                       default_expiration of
                  (None, w1) \<Rightarrow> process_loop e w1 refs processed_refs
                | (Some url, w1) \<Rightarrow>
                    if url \<noteq> []
                    then process_loop e w1 refs
                           (processed_refs @ [ref\<lparr>presigned_url := Some url\<rparr>])
                    else process_loop e w1 refs processed_refs)))"

definition process_s3_urls ::
  "env \<Rightarrow> world \<Rightarrow> reference list \<Rightarrow> (exn + reference list) \<times> world" where
  "process_s3_urls e w references = process_loop e w references []"

section \<open>Reference extractor\<close>

text \<open>\<^verbatim>\<open>str.strip()\<close>: the white space of Python among the characters below 256.\<close>

definition isspace :: "char \<Rightarrow> bool" where
  "isspace c = (of_char c \<in> {9, 10, 11, 12, 13, 28, 29, 30, 31, 32, 133, 160 :: nat})"

definition strip :: "string \<Rightarrow> string" where
  "strip s = rev (dropWhile isspace (rev (dropWhile isspace s)))"

text \<open>One retrieved reference, with the list and the set of seen uris as state.\<close>

definition extract_one ::
  "retrieved_reference \<Rightarrow> reference list \<times> string set \<Rightarrow> exn + reference list \<times> string set" where
  "extract_one r st =
     (case st of (references, seen_uris) \<Rightarrow>
        (case location r of
           None \<Rightarrow> Inr (references, seen_uris)
         | Some loc \<Rightarrow>
             (case s3Location loc of
                None \<Rightarrow> Inr (references, seen_uris)
              | Some s3 \<Rightarrow>
                  (case s3_uri s3 of
                     None \<Rightarrow> Inl (KeyError ''uri'')
                   | Some u \<Rightarrow>
                       if u \<notin> seen_uris
                       then Inr (references @
                              [\<lparr>uri = Some u,
                                snippet = strip (case content r of
                                                   None \<Rightarrow> []
                                                 | Some c \<Rightarrow> (case content_text c of
                                                                None \<Rightarrow> []
                                                              | Some t \<Rightarrow> t)),
                                score = (case ref_score r of None \<Rightarrow> 0 | Some s \<Rightarrow> s),
                                presigned_url = None\<rparr>],
                              insert u seen_uris)
                       else Inr (references, seen_uris)))))"

fun extract_inner ::
  "retrieved_reference list \<Rightarrow> reference list \<times> string set
     \<Rightarrow> exn + reference list \<times> string set" where
  "extract_inner [] st = Inr st"
| "extract_inner (r # rs) st =
     (case extract_one r st of Inl x \<Rightarrow> Inl x | Inr st1 \<Rightarrow> extract_inner rs st1)"

fun extract_outer ::
  "citation list \<Rightarrow> reference list \<times> string set \<Rightarrow> exn + reference list \<times> string set" where
  "extract_outer [] st = Inr st"
| "extract_outer (c # cs) st =
     (case extract_inner (case retrievedReferences c of None \<Rightarrow> [] | Some rs \<Rightarrow> rs) st of
        Inl x \<Rightarrow> Inl x
      | Inr st1 \<Rightarrow> extract_outer cs st1)"

text \<open>
  \<^verbatim>\<open>references.sort(key=lambda x: x['score'], reverse=True)\<close>: Python's sort is stable,
  also with \<^verbatim>\<open>reverse=True\<close>; an entry is placed before the first entry whose score is
  not greater than its own.
\<close>

fun insort_desc :: "reference \<Rightarrow> reference list \<Rightarrow> reference list" where
  "insort_desc x [] = [x]"
| "insort_desc x (y # ys) =
     (if score y \<le> score x then x # y # ys else y # insort_desc x ys)"

definition sort_desc :: "reference list \<Rightarrow> reference list" where
  "sort_desc xs = foldr insort_desc xs []"

definition extract_references :: "citation list \<Rightarrow> exn + reference list" where
  "extract_references cits =
     (case extract_outer cits ([], {}) of
        Inl x \<Rightarrow> Inl x
      | Inr (references, seen_uris) \<Rightarrow> Inr (sort_desc references))"

section \<open>Request orchestrator\<close>

text \<open>
  The body of a response is a dictionary with some of six keys (\<open>None\<close> is an absent
  key); the source serialises it with \<^verbatim>\<open>json.dumps\<close>, which is left out here.
  \<open>urlExpirationTime\<close> is the instant that the source renders with \<^verbatim>\<open>isoformat()\<close>.
\<close>

record response_body =
  error :: "string option"
  generated_response :: "string option"
  detailed_references :: "reference list option"
  urlExpirationTime :: "int option"
  sessionId :: "pyval option"
  sourceCount :: "nat option"

record response =
  statusCode :: nat
  headers :: "(string \<times> string) list"
  body :: response_body

definition no_keys :: response_body where
  "no_keys = \<lparr>error = None, generated_response = None, detailed_references = None,
              urlExpirationTime = None, sessionId = None, sourceCount = None\<rparr>"

definition create_response :: "nat \<Rightarrow> response_body \<Rightarrow> response" where
  "create_response status_code b =
     \<lparr>statusCode = status_code,
      headers =
        [(''Access-Control-Allow-Headers'',
          ''Content-Type,X-Amz-Date,Authorization,X-Api-Key,X-Amz-Security-Token''),
         (''Access-Control-Allow-Origin'', ''*''),
         (''Access-Control-Allow-Methods'', ''OPTIONS,POST''),
         (''Content-Type'', ''application/json'')],
      body = b\<rparr>"

text \<open>Lines 88 to 99 of \<^verbatim>\<open>get_request_data\<close>: where the request's fields are read from.\<close>

definition request_body :: "env \<Rightarrow> pyval \<Rightarrow> exn + pyval" where
  "request_body e event =
     (case event of
        PDict kvs \<Rightarrow>
          (case map_of kvs ''body'' of
             Some b \<Rightarrow>
               (case b of
                  PStr s \<Rightarrow>
                    (case json_loads e s of
                       Inl msg \<Rightarrow> Inl (JSONDecodeError msg)
                     | Inr v \<Rightarrow> Inr v)
                | _ \<Rightarrow> Inr b)
           | None \<Rightarrow> Inr event)
      | _ \<Rightarrow> Inl (ValueError ''Invalid event format''))"

definition get_request_data ::
  "env \<Rightarrow> world \<Rightarrow> pyval \<Rightarrow> (exn + pyval \<times> pyval) \<times> world" where
  "get_request_data e w event =
     (let w1 = py_print w (''Received event: '' @ json_dumps e event);
          r = (case request_body e event of
                 Inl x \<Rightarrow> Inl x
               | Inr b \<Rightarrow>
                   (case py_get b ''user_query'' of
                      Inl x \<Rightarrow> Inl x
                    | Inr user_query \<Rightarrow>
                        (case py_get b ''sessionId'' of
                           Inl x \<Rightarrow> Inl x
                         | Inr session_id \<Rightarrow> Inr (user_query, session_id))))
      in case r of
           Inl x \<Rightarrow> (Inl x, py_print w1 (''Error in get_request_data: '' @ str_exn x))
         | Inr p \<Rightarrow> (Inr p, w1))"

definition retrieve_request :: "env \<Rightarrow> pyval \<Rightarrow> pyval \<Rightarrow> kb_request" where
  "retrieve_request e user_query session_id =
     \<lparr>input_text = user_query,
      knowledgeBaseId = knowledgeBaseID e,
      modelArn = fundation_model_ARN e,
      numberOfResults = 3,
      overrideSearchType = ''HYBRID'',
      req_sessionId = (if truthy session_id then Some session_id else None)\<rparr>"

text \<open>
  Lines 127 to 216 of \<^verbatim>\<open>lambda_handler\<close>: what runs, inside the outer \<^verbatim>\<open>try\<close>, once the
  query has been validated. \<^verbatim>\<open>timedelta(hours=1)\<close> is 3600 seconds.
\<close>

definition answer_query ::
  "env \<Rightarrow> world \<Rightarrow> pyval \<Rightarrow> pyval \<Rightarrow> (exn + response) \<times> world" where
  "answer_query e w user_query session_id =
     (let req = retrieve_request e user_query session_id;
          w1 = w\<lparr>kb_calls := kb_calls w @ [req]\<rparr>
      in case retrieve_and_generate e req of
           Inl msg \<Rightarrow> (Inl (ServiceError msg), w1)
         | Inr client_knowledgebase \<Rightarrow>
             (case citations client_knowledgebase of
                None \<Rightarrow> (Inl (KeyError ''citations''), w1)
              | Some cits \<Rightarrow>
                  (case extract_references cits of
                     Inl x \<Rightarrow> (Inl x, w1)
                   | Inr references \<Rightarrow>
                       (case process_s3_urls e w1 references of
                          (Inl x, w2) \<Rightarrow> (Inl x, w2)
                        | (Inr references_with_urls, w2) \<Rightarrow>
                            (case kb_output client_knowledgebase of
                               None \<Rightarrow> (Inl (KeyError ''output''), w2)
                             | Some out \<Rightarrow>
                                 (case output_text out of
                                    None \<Rightarrow> (Inl (KeyError ''text''), w2)
                                  | Some generated \<Rightarrow>
                                      (Inr (create_response 200
                                         \<lparr>error = None,
                                          generated_response = Some generated,
                                          detailed_references = Some references_with_urls,
                                          urlExpirationTime = Some (utcnow e + 3600),
                                          sessionId =
                                            Some (case resp_sessionId client_knowledgebase of
                                                    None \<Rightarrow> PNone
                                                  | Some s \<Rightarrow> PStr s),
                                          sourceCount = Some (length references_with_urls)\<rparr>),
                                       w2)))))))"

text \<open>
  The handler. When the outer \<^verbatim>\<open>except\<close> runs, \<open>session_id\<close> has always been assigned
  (a failure of \<open>get_request_data\<close> has already returned), so the test on
  \<^verbatim>\<open>locals()\<close> is true there.
\<close>

definition lambda_handler :: "env \<Rightarrow> world \<Rightarrow> pyval \<Rightarrow> response \<times> world" where
  "lambda_handler e w event =
     (case get_request_data e w event of
        (Inl x, w1) \<Rightarrow>
          (create_response 400
             (no_keys\<lparr>error := Some (''Error processing request: '' @ str_exn x)\<rparr>), w1)
      | (Inr (user_query, session_id), w1) \<Rightarrow>
          if \<not> truthy user_query
          then (create_response 400 (no_keys\<lparr>error := Some ''user_query is required''\<rparr>), w1)
          else
            (case answer_query e w1 user_query session_id of
               (Inr resp, w2) \<Rightarrow> (resp, w2)
             | (Inl x, w2) \<Rightarrow>
                 (create_response 500
                    \<lparr>error = Some (str_exn x),
                     generated_response =
                       Some ''An error occurred while processing your request.'',
                     detailed_references = Some [],
                     urlExpirationTime = None,
                     sessionId = Some session_id,
                     sourceCount = None\<rparr>,
                  py_print w2 (''Error in lambda_handler: '' @ str_exn x))))"

section \<open>Notions used to state the properties\<close>

text \<open>All retrieved references of a citation list, in the order the extractor visits them.\<close>

definition all_refs :: "citation list \<Rightarrow> retrieved_reference list" where
  "all_refs cits =
     concat (map (\<lambda>c. case retrievedReferences c of None \<Rightarrow> [] | Some rs \<Rightarrow> rs) cits)"

text \<open>A reference has a storage location when both \<open>location\<close> and \<open>s3Location\<close> are there.\<close>

definition storage :: "retrieved_reference \<Rightarrow> s3_location option" where
  "storage r = (case location r of None \<Rightarrow> None | Some loc \<Rightarrow> s3Location loc)"

definition ref_uri :: "retrieved_reference \<Rightarrow> string option" where
  "ref_uri r = (case storage r of None \<Rightarrow> None | Some s3 \<Rightarrow> s3_uri s3)"

definition ref_text :: "retrieved_reference \<Rightarrow> string option" where
  "ref_text r = (case content r of None \<Rightarrow> None | Some c \<Rightarrow> content_text c)"

text \<open>The position at which a uri is first seen; the number of references when it never is.\<close>

definition first_seen :: "citation list \<Rightarrow> string option \<Rightarrow> nat" where
  "first_seen cits u = length (takeWhile (\<lambda>r. ref_uri r \<noteq> u) (all_refs cits))"

text \<open>The entries the loops collect from a list of references, given the uris seen so far.\<close>

fun collect :: "retrieved_reference list \<Rightarrow> string set \<Rightarrow> reference list" where
  "collect [] seen = []"
| "collect (r # rs) seen =
     (case ref_uri r of
        None \<Rightarrow> collect rs seen
      | Some u \<Rightarrow>
          if u \<in> seen then collect rs seen
          else \<lparr>uri = Some u,
                 snippet = strip (case ref_text r of None \<Rightarrow> [] | Some t \<Rightarrow> t),
                 score = (case ref_score r of None \<Rightarrow> 0 | Some s \<Rightarrow> s),
                 presigned_url = None\<rparr> # collect rs (insert u seen))"

text \<open>Whether the enricher keeps an entry: its uri parses and signing gives a non-empty url.\<close>

definition signed_url :: "env \<Rightarrow> reference \<Rightarrow> string option" where
  "signed_url e ref =
     (case uri ref of
        None \<Rightarrow> None
      | Some s3_url \<Rightarrow>
          (case urlparse e s3_url of
             Inl msg \<Rightarrow> None
           | Inr (netloc, path) \<Rightarrow>
               (case s3_generate_presigned_url e
                       \<lparr>ClientMethod = ''get_object'', Bucket = bucket_of netloc,
                        Key = key_of path, ResponseContentDisposition = ''inline'',
                        ExpiresIn = default_expiration\<rparr> of
                  Inl msg \<Rightarrow> None
                | Inr url \<Rightarrow> if url \<noteq> [] then Some url else None)))"

definition parses :: "env \<Rightarrow> reference \<Rightarrow> bool" where
  "parses e ref =
     (case uri ref of
        None \<Rightarrow> True
      | Some s3_url \<Rightarrow> (case urlparse e s3_url of Inl msg \<Rightarrow> False | Inr p \<Rightarrow> True))"

text \<open>What the enricher returns when every uri parses: the kept entries, each with its url.\<close>

definition enrich :: "env \<Rightarrow> reference list \<Rightarrow> reference list" where
  "enrich e refs =
     map (\<lambda>r. r\<lparr>presigned_url := signed_url e r\<rparr>) (filter (\<lambda>r. signed_url e r \<noteq> None) refs)"

text \<open>
  The \<open>user_query\<close> field of the request, when the event can be read and has one, and
  its \<open>sessionId\<close> field, \<^verbatim>\<open>None\<close> when there is none.
\<close>

definition query_of :: "env \<Rightarrow> pyval \<Rightarrow> pyval option" where
  "query_of e event =
     (case request_body e event of
        Inr (PDict kvs) \<Rightarrow> map_of kvs ''user_query''
      | _ \<Rightarrow> None)"

definition session_of :: "env \<Rightarrow> pyval \<Rightarrow> pyval" where
  "session_of e event =
     (case request_body e event of
        Inr (PDict kvs) \<Rightarrow> (case map_of kvs ''sessionId'' of None \<Rightarrow> PNone | Some s \<Rightarrow> s)
      | _ \<Rightarrow> PNone)"

section \<open>Concrete inputs\<close>

text \<open>The two retrieved references of the specification's example, without content.\<close>

definition k1_ref :: "rat \<Rightarrow> retrieved_reference" where
  "k1_ref s = \<lparr>location = Some \<lparr>s3Location = Some \<lparr>s3_uri = Some ''s3://b/k1''\<rparr>\<rparr>,
               content = None, ref_score = Some s\<rparr>"

text \<open>
  Three citations: a repeated uri, a reference without location, a citation without
  references, a content without text, a missing score, and two equal scores.
\<close>

definition sample_citations :: "citation list" where
  "sample_citations =
     [\<lparr>retrievedReferences = Some
         [\<lparr>location = Some \<lparr>s3Location = Some \<lparr>s3_uri = Some ''s3://b/k1''\<rparr>\<rparr>,
           content = Some \<lparr>content_text = Some '' alpha ''\<rparr>, ref_score = Some (1/2)\<rparr>,
          \<lparr>location = None, content = Some \<lparr>content_text = Some ''lost''\<rparr>,
           ref_score = Some 1\<rparr>,
          \<lparr>location = Some \<lparr>s3Location = Some \<lparr>s3_uri = Some ''s3://b/k2''\<rparr>\<rparr>,
           content = None, ref_score = Some (9/10)\<rparr>]\<rparr>,
      \<lparr>retrievedReferences = None\<rparr>,
      \<lparr>retrievedReferences = Some
         [\<lparr>location = Some \<lparr>s3Location = Some \<lparr>s3_uri = Some ''s3://b/k3''\<rparr>\<rparr>,
           content = Some \<lparr>content_text = None\<rparr>, ref_score = Some (1/2)\<rparr>,
          \<lparr>location = Some \<lparr>s3Location = Some \<lparr>s3_uri = Some ''s3://b/k1''\<rparr>\<rparr>,
           content = Some \<lparr>content_text = Some ''again''\<rparr>, ref_score = Some 2\<rparr>,
          \<lparr>location = Some \<lparr>s3Location = Some \<lparr>s3_uri = Some ''s3://b/k4''\<rparr>\<rparr>,
           content = Some \<lparr>content_text = Some ''delta''\<rparr>, ref_score = None\<rparr>]\<rparr>]"

definition sample_entries :: "reference list" where
  "sample_entries =
     [\<lparr>uri = Some ''s3://b/k2'', snippet = [], score = 9/10, presigned_url = None\<rparr>,
      \<lparr>uri = Some ''s3://b/k1'', snippet = ''alpha'', score = 1/2, presigned_url = None\<rparr>,
      \<lparr>uri = Some ''s3://b/k3'', snippet = [], score = 1/2, presigned_url = None\<rparr>,
      \<lparr>uri = Some ''s3://b/k4'', snippet = ''delta'', score = 0, presigned_url = None\<rparr>]"

text \<open>
  A world in which nothing has happened yet, and collaborators to run the code with: a
  parser for uris of the form \<^verbatim>\<open>s3://host/path\<close>, a signer that is refused on the
  bucket \<^verbatim>\<open>locked\<close>, and a generation service that is down for the query \<^verbatim>\<open>down\<close>.
\<close>

definition w0 :: world where
  "w0 = \<lparr>kb_calls = [], s3_calls = [], printed = []\<rparr>"

definition demo_urlparse :: "string \<Rightarrow> string + (string \<times> string)" where
  "demo_urlparse u =
     (let rest = drop 5 u;
          netloc = takeWhile (\<lambda>c. c \<noteq> CHR ''/'') rest;
          path = dropWhile (\<lambda>c. c \<noteq> CHR ''/'') rest
      in if CHR ''['' \<in> set netloc \<and> CHR '']'' \<notin> set netloc
         then Inl ''Invalid IPv6 URL''
         else Inr (netloc, path))"

definition demo_sign :: "sign_request \<Rightarrow> string + string" where
  "demo_sign req =
     (if Bucket req = ''locked''
      then Inl ''An error occurred (AccessDenied) when calling the GetObject operation''
      else Inr (''https://'' @ Bucket req @ ''.s3.amazonaws.com/'' @ Key req))"

definition locked_citations :: "citation list" where
  "locked_citations =
     [\<lparr>retrievedReferences = Some
         [\<lparr>location = Some \<lparr>s3Location = Some \<lparr>s3_uri = Some ''s3://locked/a.pdf''\<rparr>\<rparr>,
           content = Some \<lparr>content_text = Some ''first''\<rparr>, ref_score = Some (7/10)\<rparr>,
          \<lparr>location = Some \<lparr>s3Location = Some \<lparr>s3_uri = Some ''s3://locked.vault/b.pdf''\<rparr>\<rparr>,
           content = Some \<lparr>content_text = Some ''second''\<rparr>, ref_score = Some (4/10)\<rparr>]\<rparr>]"

definition demo_kb :: "kb_request \<Rightarrow> string + kb_response" where
  "demo_kb req =
     (if input_text req = PStr ''down''
      then Inl ''An error occurred (ThrottlingException) when calling the RetrieveAndGenerate operation''
      else Inr \<lparr>citations = Some (if input_text req = PStr ''locked''
                                   then locked_citations else sample_citations),
                kb_output = Some \<lparr>output_text = Some ''The answer.''\<rparr>,
                resp_sessionId = Some ''sess-1''\<rparr>)"

definition demo_env :: env where
  "demo_env =
     \<lparr>json_loads = (\<lambda>s. if s = ''{}'' then Inr (PDict [])
                        else Inl ''Expecting value: line 1 column 1 (char 0)''),
      json_dumps = (\<lambda>v. ''...''),
      urlparse = demo_urlparse,
      s3_generate_presigned_url = demo_sign,
      retrieve_and_generate = demo_kb,
      utcnow = 1700000000,
      knowledgeBaseID = ''KB00000001'',
      fundation_model_ARN = ''arn:aws:bedrock:us-east-1::foundation-model/m''\<rparr>"

text \<open>Entries for the enricher: the middle one is in the bucket the signer refuses.\<close>

definition three_refs :: "reference list" where
  "three_refs =
     [\<lparr>uri = Some ''s3://b/k1'', snippet = ''alpha'', score = 9/10, presigned_url = None\<rparr>,
      \<lparr>uri = Some ''s3://locked/a.pdf'', snippet = ''first'', score = 7/10,
        presigned_url = None\<rparr>,
      \<lparr>uri = Some ''s3://c.d//k2'', snippet = [], score = 0, presigned_url = None\<rparr>]"

text \<open>Events: a direct invocation with a query, and a gateway event with a string body.\<close>

definition ev_query :: "string \<Rightarrow> pyval" where
  "ev_query q = PDict [(''user_query'', PStr q), (''sessionId'', PStr ''sess-0'')]"

definition ev_gateway :: "string \<Rightarrow> pyval" where
  "ev_gateway s = PDict [(''httpMethod'', PStr ''POST''), (''body'', PStr s)]"

section \<open>The extractor: what the loops collect\<close>

lemma extract_outer_all_refs:
  "extract_outer cits st = extract_inner (all_refs cits) st"
proof (induction cits arbitrary: st)
  case Nil
  show ?case by (simp add: all_refs_def)
next
  case (Cons c cs)
  have app: "\<And>xs ys s. extract_inner (xs @ ys) s =
      (case extract_inner xs s of Inl x \<Rightarrow> Inl x | Inr s1 \<Rightarrow> extract_inner ys s1)"
  proof -
    fix xs ys s
    show "extract_inner (xs @ ys) s =
      (case extract_inner xs s of Inl x \<Rightarrow> Inl x | Inr s1 \<Rightarrow> extract_inner ys s1)"
      by (induction xs arbitrary: s) (auto split: sum.splits)
  qed
  show ?case
    using Cons.IH by (simp add: all_refs_def app split: sum.splits)
qed

lemma extract_one_Inr:
  "extract_one r (acc, seen) = Inr (acc', seen') \<Longrightarrow>
     acc' = acc @ collect [r] seen \<and>
     seen' = (case ref_uri r of None \<Rightarrow> seen | Some u \<Rightarrow> insert u seen)"
  by (auto simp: extract_one_def ref_uri_def storage_def ref_text_def
           split: option.splits if_splits)

lemma collect_insert_seen:
  "u \<in> seen \<Longrightarrow> collect rs (insert u seen) = collect rs seen"
  by (simp add: insert_absorb)

lemma extract_inner_Inr:
  "extract_inner rs (acc, seen) = Inr (acc', seen') \<Longrightarrow> acc' = acc @ collect rs seen"
proof (induction rs arbitrary: acc seen)
  case Nil
  then show ?case by simp
next
  case (Cons r rs)
  from Cons.prems obtain acc1 seen1 where
    one: "extract_one r (acc, seen) = Inr (acc1, seen1)" and
    rest: "extract_inner rs (acc1, seen1) = Inr (acc', seen')"
    by (auto split: sum.splits)
  from extract_one_Inr [OF one] have
    a1: "acc1 = acc @ collect [r] seen" and
    s1: "seen1 = (case ref_uri r of None \<Rightarrow> seen | Some u \<Rightarrow> insert u seen)"
    by simp_all
  from Cons.IH [OF rest] have "acc' = acc1 @ collect rs seen1" .
  with a1 s1 show ?case
    by (auto split: option.splits simp: insert_absorb)
qed

lemma extract_one_Inl:
  "extract_one r st = Inl x \<Longrightarrow> x = KeyError ''uri'' \<and> storage r \<noteq> None \<and> ref_uri r = None"
  by (cases st) (auto simp: extract_one_def ref_uri_def storage_def split: option.splits if_splits)

lemma extract_inner_Inl:
  "extract_inner rs st = Inl x \<Longrightarrow>
     x = KeyError ''uri'' \<and> (\<exists>r \<in> set rs. storage r \<noteq> None \<and> ref_uri r = None)"
proof (induction rs arbitrary: st)
  case Nil
  then show ?case by simp
next
  case (Cons r rs)
  show ?case
  proof (cases "extract_one r st")
    case (Inl y)
    with Cons.prems have "x = y" by simp
    with extract_one_Inl [OF Inl] show ?thesis by simp
  next
    case (Inr st1)
    with Cons.prems have "extract_inner rs st1 = Inl x" by simp
    from Cons.IH [OF this] show ?thesis by auto
  qed
qed

lemma extract_one_total:
  "storage r \<noteq> None \<longrightarrow> ref_uri r \<noteq> None \<Longrightarrow> \<exists>st1. extract_one r st = Inr st1"
  by (cases st) (auto simp: extract_one_def ref_uri_def storage_def split: option.splits)

lemma extract_inner_total:
  "\<forall>r \<in> set rs. storage r \<noteq> None \<longrightarrow> ref_uri r \<noteq> None \<Longrightarrow> \<exists>st1. extract_inner rs st = Inr st1"
proof (induction rs arbitrary: st)
  case Nil
  show ?case by simp
next
  case (Cons r rs)
  then obtain st1 where "extract_one r st = Inr st1"
    using extract_one_total [of r st] by auto
  moreover from Cons obtain st2 where "extract_inner rs st1 = Inr st2"
    by fastforce
  ultimately show ?case by simp
qed

lemma extract_references_Inr:
  "extract_references cits = Inr out \<Longrightarrow> out = sort_desc (collect (all_refs cits) {})"
  by (auto simp: extract_references_def extract_outer_all_refs
           split: sum.splits prod.splits dest: extract_inner_Inr)

lemma collect_uri:
  "x \<in> set (collect rs seen) \<Longrightarrow> \<exists>u. uri x = Some u \<and> u \<notin> seen \<and> Some u \<in> ref_uri ` set rs"
proof (induction rs arbitrary: seen)
  case Nil
  then show ?case by simp
next
  case (Cons r rs)
  show ?case
  proof (cases "ref_uri r")
    case None
    with Cons.prems have "x \<in> set (collect rs seen)" by simp
    from Cons.IH [OF this] show ?thesis by auto
  next
    case (Some v)
    show ?thesis
    proof (cases "v \<in> seen")
      case True
      with Some Cons.prems have "x \<in> set (collect rs seen)" by simp
      from Cons.IH [OF this] show ?thesis by auto
    next
      case False
      with Some Cons.prems consider
        (hd) "uri x = Some v" | (tl) "x \<in> set (collect rs (insert v seen))"
        by auto
      then show ?thesis
      proof cases
        case hd
        with False Some show ?thesis by force
      next
        case tl
        from Cons.IH [OF this] show ?thesis by auto
      qed
    qed
  qed
qed

lemma collect_distinct: "distinct (map uri (collect rs seen))"
proof (induction rs arbitrary: seen)
  case Nil
  show ?case by simp
next
  case (Cons r rs)
  show ?case
  proof (cases "ref_uri r")
    case None
    then show ?thesis using Cons.IH by simp
  next
    case (Some v)
    have "Some v \<notin> uri ` set (collect rs (insert v seen))"
    proof
      assume "Some v \<in> uri ` set (collect rs (insert v seen))"
      then obtain x where x: "x \<in> set (collect rs (insert v seen))" "uri x = Some v"
        by auto
      from collect_uri [OF x(1)] x(2) show False by auto
    qed
    with Some show ?thesis using Cons.IH by simp
  qed
qed

lemma collect_complete:
  "r \<in> set rs \<Longrightarrow> ref_uri r = Some u \<Longrightarrow> u \<notin> seen \<Longrightarrow> Some u \<in> uri ` set (collect rs seen)"
proof (induction rs arbitrary: seen)
  case Nil
  then show ?case by simp
next
  case (Cons a rs)
  show ?case
  proof (cases "ref_uri a")
    case None
    with Cons.prems have "r \<in> set rs" by auto
    from Cons.IH [OF this Cons.prems(2,3)] None show ?thesis by simp
  next
    case (Some v)
    show ?thesis
    proof (cases "v = u")
      case True
      with Some Cons.prems(3) show ?thesis by simp
    next
      case False
      with Some Cons.prems have r: "r \<in> set rs" by auto
      from False Cons.prems(3) have "u \<notin> insert v seen" by simp
      from Cons.IH [OF r Cons.prems(2) this] Cons.IH [OF r Cons.prems(2,3)] Some
      show ?thesis by simp
    qed
  qed
qed

lemma collect_first:
  "x \<in> set (collect rs seen) \<Longrightarrow>
     \<exists>r. find (\<lambda>r. ref_uri r = uri x) rs = Some r \<and>
         snippet x = strip (case ref_text r of None \<Rightarrow> [] | Some t \<Rightarrow> t) \<and>
         score x = (case ref_score r of None \<Rightarrow> 0 | Some s \<Rightarrow> s)"
proof (induction rs arbitrary: seen)
  case Nil
  then show ?case by simp
next
  case (Cons a rs)
  from collect_uri [OF Cons.prems] obtain u where u: "uri x = Some u" "u \<notin> seen" by auto
  show ?case
  proof (cases "ref_uri a")
    case None
    with Cons.prems have "x \<in> set (collect rs seen)" by simp
    from Cons.IH [OF this] None u show ?thesis by simp
  next
    case (Some v)
    show ?thesis
    proof (cases "v \<in> seen")
      case True
      with Some Cons.prems have "x \<in> set (collect rs seen)" by simp
      moreover from True u have "v \<noteq> u" by auto
      ultimately show ?thesis using Cons.IH [of seen] Some u by simp
    next
      case False
      with Some Cons.prems consider
        (hd) "x = \<lparr>uri = Some v,
                 snippet = strip (case ref_text a of None \<Rightarrow> [] | Some t \<Rightarrow> t),
                 score = (case ref_score a of None \<Rightarrow> 0 | Some s \<Rightarrow> s),
                 presigned_url = None\<rparr>"
        | (tl) "x \<in> set (collect rs (insert v seen))"
        by auto
      then show ?thesis
      proof cases
        case hd
        with Some show ?thesis by simp
      next
        case tl
        from collect_uri [OF tl] u have "v \<noteq> u" by auto
        with Cons.IH [OF tl] Some u show ?thesis by simp
      qed
    qed
  qed
qed

lemma collect_uri_fresh: "x \<in> set (collect rs seen) \<Longrightarrow> uri x = Some v \<Longrightarrow> v \<notin> seen"
  using collect_uri [of x rs seen] by auto

lemma collect_uri_Some: "x \<in> set (collect rs seen) \<Longrightarrow> uri x \<noteq> None"
  using collect_uri [of x rs seen] by auto

lemma first_seen_shift:
  assumes "\<forall>x \<in> set ys. uri x \<noteq> ref_uri a"
  shows "map (\<lambda>x. length (takeWhile (\<lambda>r. ref_uri r \<noteq> uri x) (a # rs))) ys
       = map (\<lambda>x. Suc (length (takeWhile (\<lambda>r. ref_uri r \<noteq> uri x) rs))) ys"
proof (rule map_cong [OF refl])
  fix x
  assume "x \<in> set ys"
  with assms have "ref_uri a \<noteq> uri x" by auto
  then show "length (takeWhile (\<lambda>r. ref_uri r \<noteq> uri x) (a # rs))
    = Suc (length (takeWhile (\<lambda>r. ref_uri r \<noteq> uri x) rs))"
    by simp
qed

lemma collect_first_seen:
  "sorted_wrt (<) (map (\<lambda>x. length (takeWhile (\<lambda>r. ref_uri r \<noteq> uri x) rs)) (collect rs seen))"
proof (induction rs arbitrary: seen)
  case Nil
  show ?case by simp
next
  case (Cons a rs)
  let ?f = "\<lambda>qs x. length (takeWhile (\<lambda>r. ref_uri r \<noteq> uri x) qs)"
  have tail: "sorted_wrt (<) (map (?f (a # rs)) (collect rs s))"
    if "\<forall>x \<in> set (collect rs s). uri x \<noteq> ref_uri a" for s
  proof -
    have "sorted_wrt (<) (map (\<lambda>x. Suc (?f rs x)) (collect rs s))"
      using Cons.IH [of s] by (simp add: sorted_wrt_map)
    then show ?thesis by (simp only: first_seen_shift [OF that, of rs])
  qed
  show ?case
  proof (cases "ref_uri a")
    case None
    have "\<forall>x \<in> set (collect rs seen). uri x \<noteq> ref_uri a"
      using None by (auto dest: collect_uri_Some)
    from tail [OF this] None show ?thesis by simp
  next
    case (Some v)
    show ?thesis
    proof (cases "v \<in> seen")
      case True
      have "\<forall>x \<in> set (collect rs seen). uri x \<noteq> ref_uri a"
        using Some True by (auto dest: collect_uri_fresh)
      from tail [OF this] Some True show ?thesis by simp
    next
      case False
      let ?x = "\<lparr>uri = Some v,
                 snippet = strip (case ref_text a of None \<Rightarrow> [] | Some t \<Rightarrow> t),
                 score = (case ref_score a of None \<Rightarrow> 0 | Some s \<Rightarrow> s),
                 presigned_url = None\<rparr>"
      have ne: "\<forall>x \<in> set (collect rs (insert v seen)). uri x \<noteq> ref_uri a"
        using Some by (auto dest: collect_uri_fresh)
      have c: "collect (a # rs) seen = ?x # collect rs (insert v seen)"
        using Some False by simp
      have hd0: "?f (a # rs) ?x = 0"
        using Some by simp
      have pos: "\<forall>y \<in> set (collect rs (insert v seen)). 0 < ?f (a # rs) y"
        using ne by auto
      show ?thesis
        unfolding c using tail [OF ne] hd0 pos by (simp del: takeWhile.simps)
    qed
  qed
qed

lemma set_insort_desc: "set (insort_desc x ys) = insert x (set ys)"
  by (induction ys) auto

lemma set_sort_desc: "set (sort_desc xs) = set xs"
  by (induction xs) (simp_all add: sort_desc_def set_insort_desc)

lemma length_insort_desc: "length (insort_desc x ys) = Suc (length ys)"
  by (induction ys) auto

lemma length_sort_desc: "length (sort_desc xs) = length xs"
  by (induction xs) (simp_all add: sort_desc_def length_insort_desc)

lemma distinct_insort_desc:
  "distinct (map f (insort_desc x ys)) = (f x \<notin> f ` set ys \<and> distinct (map f ys))"
  by (induction ys) (auto simp: set_insort_desc)

lemma distinct_sort_desc: "distinct (map f (sort_desc xs)) = distinct (map f xs)"
  by (induction xs) (simp_all add: sort_desc_def distinct_insort_desc set_sort_desc [unfolded sort_desc_def])

lemma sorted_insort_desc:
  "sorted_wrt (\<lambda>a b. score b \<le> score a) ys \<Longrightarrow>
     sorted_wrt (\<lambda>a b. score b \<le> score a) (insort_desc x ys)"
  by (induction ys) (auto simp: set_insort_desc)

lemma sorted_sort_desc: "sorted_wrt (\<lambda>a b. score b \<le> score a) (sort_desc xs)"
  by (induction xs) (simp_all add: sort_desc_def sorted_insort_desc)

lemma filter_insort_desc:
  "sorted_wrt (\<lambda>a b. score b \<le> score a) ys \<Longrightarrow>
     filter (\<lambda>y. score y = k) (insort_desc x ys) =
       (if score x = k then x # filter (\<lambda>y. score y = k) ys else filter (\<lambda>y. score y = k) ys)"
proof (induction ys)
  case Nil
  show ?case by simp
next
  case (Cons y ys)
  show ?case
  proof (cases "score y \<le> score x")
    case True
    then show ?thesis by simp
  next
    case False
    from Cons.prems have "sorted_wrt (\<lambda>a b. score b \<le> score a) ys" by simp
    from Cons.IH [OF this] False show ?thesis by auto
  qed
qed

lemma sort_desc_stable:
  "filter (\<lambda>y. score y = k) (sort_desc xs) = filter (\<lambda>y. score y = k) xs"
  by (induction xs)
     (simp_all add: sort_desc_def filter_insort_desc sorted_sort_desc [unfolded sort_desc_def])

section \<open>Properties of the reference extractor\<close>

lemma ref_uri_storage: "ref_uri r = Some u \<Longrightarrow> storage r \<noteq> None"
  by (auto simp: ref_uri_def split: option.splits)

lemma k1_example:
  "extract_references [\<lparr>retrievedReferences = Some [k1_ref (9/10), k1_ref (5/10)]\<rparr>]
     = Inr [\<lparr>uri = Some ''s3://b/k1'', snippet = [], score = 9/10, presigned_url = None\<rparr>]"
  by (simp add: extract_references_def extract_one_def k1_ref_def sort_desc_def strip_def)

text \<open>
  Claim C1. Whenever \<open>extract_references\<close> returns, no two entries of its output have
  the same uri; every entry has the excerpt and the score of the first retrieved reference,
  in the order received, that has its uri; and every uri of a located reference has an
  entry. For the two references of the example, both with uri \<^verbatim>\<open>s3://b/k1\<close> and with
  scores 0.9 and 0.5, the output is the single entry for that uri, with score 0.9.
\<close>

theorem extract_references_unique_first_wins:
  "(extract_references cits = Inr out \<longrightarrow>
      distinct (map uri out) \<and>
      (\<forall>x \<in> set out. \<exists>r.
          find (\<lambda>r. ref_uri r = uri x) (all_refs cits) = Some r \<and> uri x \<noteq> None \<and>
          snippet x = strip (case ref_text r of None \<Rightarrow> [] | Some t \<Rightarrow> t) \<and>
          score x = (case ref_score r of None \<Rightarrow> 0 | Some s \<Rightarrow> s)) \<and>
      (\<forall>r \<in> set (all_refs cits). ref_uri r \<noteq> None \<longrightarrow> ref_uri r \<in> uri ` set out))
   \<and> extract_references [\<lparr>retrievedReferences = Some [k1_ref (9/10), k1_ref (5/10)]\<rparr>]
       = Inr [\<lparr>uri = Some ''s3://b/k1'', snippet = [], score = 9/10, presigned_url = None\<rparr>]"
proof (intro conjI impI)
  assume ok: "extract_references cits = Inr out"
  let ?c = "collect (all_refs cits) {}"
  from extract_references_Inr [OF ok] have out: "out = sort_desc ?c" .
  show "distinct (map uri out)"
    by (simp add: out distinct_sort_desc collect_distinct)
  show "\<forall>x \<in> set out. \<exists>r.
          find (\<lambda>r. ref_uri r = uri x) (all_refs cits) = Some r \<and> uri x \<noteq> None \<and>
          snippet x = strip (case ref_text r of None \<Rightarrow> [] | Some t \<Rightarrow> t) \<and>
          score x = (case ref_score r of None \<Rightarrow> 0 | Some s \<Rightarrow> s)"
  proof
    fix x
    assume "x \<in> set out"
    then have x: "x \<in> set ?c" by (simp add: out set_sort_desc)
    from collect_first [OF x] collect_uri_Some [OF x]
    show "\<exists>r. find (\<lambda>r. ref_uri r = uri x) (all_refs cits) = Some r \<and> uri x \<noteq> None \<and>
          snippet x = strip (case ref_text r of None \<Rightarrow> [] | Some t \<Rightarrow> t) \<and>
          score x = (case ref_score r of None \<Rightarrow> 0 | Some s \<Rightarrow> s)"
      by blast
  qed
  show "\<forall>r \<in> set (all_refs cits). ref_uri r \<noteq> None \<longrightarrow> ref_uri r \<in> uri ` set out"
  proof (intro ballI impI)
    fix r
    assume r: "r \<in> set (all_refs cits)" and "ref_uri r \<noteq> None"
    then obtain u where u: "ref_uri r = Some u" by auto
    from collect_complete [OF r u, of "{}"] show "ref_uri r \<in> uri ` set out"
      by (simp add: out set_sort_desc u)
  qed
next
  show "extract_references [\<lparr>retrievedReferences = Some [k1_ref (9/10), k1_ref (5/10)]\<rparr>]
       = Inr [\<lparr>uri = Some ''s3://b/k1'', snippet = [], score = 9/10, presigned_url = None\<rparr>]"
    by (rule k1_example)
qed

theorem extract_references_unique_first_wins_witness:
  "extract_references sample_citations = Inr sample_entries \<and>
   distinct (map uri sample_entries) \<and>
   (\<exists>r. find (\<lambda>r. ref_uri r = Some ''s3://b/k1'') (all_refs sample_citations) = Some r \<and>
        ''alpha'' = strip (case ref_text r of None \<Rightarrow> [] | Some t \<Rightarrow> t) \<and>
        1/2 = (case ref_score r of None \<Rightarrow> 0 | Some s \<Rightarrow> s)) \<and>
   Some ''s3://b/k4'' \<in> uri ` set sample_entries"
proof -
  have run: "extract_references sample_citations = Inr sample_entries"
    by (simp add: extract_references_def extract_one_def sample_citations_def sample_entries_def
        sort_desc_def strip_def isspace_def)
  let ?x = "\<lparr>uri = Some ''s3://b/k1'', snippet = ''alpha'', score = 1/2, presigned_url = None\<rparr>"
  let ?r = "\<lparr>location = Some \<lparr>s3Location = Some \<lparr>s3_uri = Some ''s3://b/k4''\<rparr>\<rparr>,
            content = Some \<lparr>content_text = Some ''delta''\<rparr>, ref_score = None\<rparr>"
  have x: "?x \<in> set sample_entries"
    by (simp add: sample_entries_def)
  have r: "?r \<in> set (all_refs sample_citations)" "ref_uri ?r = Some ''s3://b/k4''"
    by (simp_all add: all_refs_def sample_citations_def ref_uri_def storage_def)
  from extract_references_unique_first_wins [of sample_citations sample_entries] run
  have d: "distinct (map uri sample_entries)"
    and f: "\<forall>x \<in> set sample_entries. \<exists>r.
       find (\<lambda>r. ref_uri r = uri x) (all_refs sample_citations) = Some r \<and> uri x \<noteq> None \<and>
       snippet x = strip (case ref_text r of None \<Rightarrow> [] | Some t \<Rightarrow> t) \<and>
       score x = (case ref_score r of None \<Rightarrow> 0 | Some s \<Rightarrow> s)"
    and c: "\<forall>r \<in> set (all_refs sample_citations). ref_uri r \<noteq> None \<longrightarrow>
       ref_uri r \<in> uri ` set sample_entries"
    by blast+
  from f x have "\<exists>r. find (\<lambda>r. ref_uri r = uri ?x) (all_refs sample_citations) = Some r \<and>
       uri ?x \<noteq> None \<and>
       snippet ?x = strip (case ref_text r of None \<Rightarrow> [] | Some t \<Rightarrow> t) \<and>
       score ?x = (case ref_score r of None \<Rightarrow> 0 | Some s \<Rightarrow> s)"
    by (rule bspec)
  then have f1: "\<exists>r. find (\<lambda>r. ref_uri r = Some ''s3://b/k1'') (all_refs sample_citations) = Some r \<and>
        ''alpha'' = strip (case ref_text r of None \<Rightarrow> [] | Some t \<Rightarrow> t) \<and>
        1/2 = (case ref_score r of None \<Rightarrow> 0 | Some s \<Rightarrow> s)"
    by simp
  from c r have c1: "Some ''s3://b/k4'' \<in> uri ` set sample_entries"
    by force
  from run d f1 c1 show ?thesis by blast
qed

text \<open>
  Claim C2. Whenever \<open>extract_references\<close> returns, its output is in descending order
  of score, and for every score the entries with that score appear in the order in which
  their uris were first seen: their positions of first occurrence are strictly increasing.
\<close>

theorem extract_references_sorted_stable:
  "extract_references cits = Inr out \<Longrightarrow>
     sorted_wrt (\<lambda>a b. score b \<le> score a) out \<and>
     (\<forall>k. sorted_wrt (<)
            (map (\<lambda>x. first_seen cits (uri x)) (filter (\<lambda>x. score x = k) out)))"
proof
  assume ok: "extract_references cits = Inr out"
  let ?c = "collect (all_refs cits) {}"
  from extract_references_Inr [OF ok] have out: "out = sort_desc ?c" .
  show "sorted_wrt (\<lambda>a b. score b \<le> score a) out"
    by (simp add: out sorted_sort_desc)
  show "\<forall>k. sorted_wrt (<)
            (map (\<lambda>x. first_seen cits (uri x)) (filter (\<lambda>x. score x = k) out))"
  proof
    fix k
    have "sorted_wrt (\<lambda>x y. first_seen cits (uri x) < first_seen cits (uri y)) ?c"
      using collect_first_seen [of "all_refs cits" "{}"]
      by (simp add: sorted_wrt_map first_seen_def)
    then have "sorted_wrt (\<lambda>x y. first_seen cits (uri x) < first_seen cits (uri y))
                 (filter (\<lambda>x. score x = k) ?c)"
      by (rule sorted_wrt_filter)
    then show "sorted_wrt (<)
            (map (\<lambda>x. first_seen cits (uri x)) (filter (\<lambda>x. score x = k) out))"
      by (simp add: out sort_desc_stable sorted_wrt_map)
  qed
qed

theorem extract_references_sorted_stable_witness:
  "extract_references sample_citations = Inr sample_entries \<and>
   sorted_wrt (\<lambda>a b. score b \<le> score a) sample_entries \<and>
   map (\<lambda>x. first_seen sample_citations (uri x)) (filter (\<lambda>x. score x = 1/2) sample_entries)
     = [0, 3] \<and>
   (\<forall>k. sorted_wrt (<)
          (map (\<lambda>x. first_seen sample_citations (uri x))
             (filter (\<lambda>x. score x = k) sample_entries)))"
proof -
  have run: "extract_references sample_citations = Inr sample_entries"
    by (simp add: extract_references_def extract_one_def sample_citations_def sample_entries_def
        sort_desc_def strip_def isspace_def)
  have ties: "map (\<lambda>x. first_seen sample_citations (uri x))
                (filter (\<lambda>x. score x = 1/2) sample_entries) = [0, 3]"
    by (simp add: sample_entries_def first_seen_def all_refs_def sample_citations_def
          ref_uri_def storage_def)
  from extract_references_sorted_stable [OF run] run ties show ?thesis by blast
qed

text \<open>
  Claim C7, as amended. When every retrieved reference that has a storage location has a
  uri there, \<open>extract_references\<close> returns: the uris of its output are those of the
  located references, so that a reference without storage location gives no entry; and in
  each entry a missing content text has become the empty excerpt and a missing score
  has become 0.
\<close>

theorem extract_references_total_on_located:
  assumes "\<forall>r \<in> set (all_refs cits). storage r \<noteq> None \<longrightarrow> ref_uri r \<noteq> None"
  shows "\<exists>out. extract_references cits = Inr out \<and>
           uri ` set out = ref_uri ` {r \<in> set (all_refs cits). storage r \<noteq> None} \<and>
           (\<forall>x \<in> set out. \<exists>r.
               find (\<lambda>r. ref_uri r = uri x) (all_refs cits) = Some r \<and> storage r \<noteq> None \<and>
               (ref_text r = None \<longrightarrow> snippet x = []) \<and>
               (ref_score r = None \<longrightarrow> score x = 0))"
proof -
  let ?c = "collect (all_refs cits) {}"
  from extract_inner_total [OF assms, of "([], {})"]
  obtain acc seen where inner: "extract_inner (all_refs cits) ([], {}) = Inr (acc, seen)"
    by auto
  from extract_inner_Inr [OF inner] have acc: "acc = ?c" by simp
  have ok: "extract_references cits = Inr (sort_desc ?c)"
    by (simp add: extract_references_def extract_outer_all_refs inner acc)
  have img: "uri ` set ?c = ref_uri ` {r \<in> set (all_refs cits). storage r \<noteq> None}"
  proof (intro set_eqI iffI)
    fix u
    assume "u \<in> uri ` set ?c"
    then obtain x where x: "x \<in> set ?c" "u = uri x" by auto
    from collect_uri [OF x(1)] obtain v where
      v: "uri x = Some v" "Some v \<in> ref_uri ` set (all_refs cits)"
      by blast
    from v(2) obtain r where r0: "r \<in> set (all_refs cits)" "ref_uri r = Some v"
      by force
    with v have r: "r \<in> set (all_refs cits)" "ref_uri r = uri x" "uri x \<noteq> None"
      by simp_all
    from ref_uri_storage [OF r0(2)] have "storage r \<noteq> None" .
    with r x show "u \<in> ref_uri ` {r \<in> set (all_refs cits). storage r \<noteq> None}"
      by force
  next
    fix u
    assume "u \<in> ref_uri ` {r \<in> set (all_refs cits). storage r \<noteq> None}"
    then obtain r where r: "r \<in> set (all_refs cits)" "storage r \<noteq> None" "u = ref_uri r"
      by auto
    with assms obtain v where v: "ref_uri r = Some v" by auto
    from collect_complete [OF r(1) v, of "{}"] r(3) v show "u \<in> uri ` set ?c" by simp
  qed
  have each: "\<forall>x \<in> set (sort_desc ?c). \<exists>r.
               find (\<lambda>r. ref_uri r = uri x) (all_refs cits) = Some r \<and> storage r \<noteq> None \<and>
               (ref_text r = None \<longrightarrow> snippet x = []) \<and>
               (ref_score r = None \<longrightarrow> score x = 0)"
  proof
    fix x
    assume "x \<in> set (sort_desc ?c)"
    then have x: "x \<in> set ?c" by (simp add: set_sort_desc)
    from collect_first [OF x] obtain r where
      r: "find (\<lambda>r. ref_uri r = uri x) (all_refs cits) = Some r"
         "snippet x = strip (case ref_text r of None \<Rightarrow> [] | Some t \<Rightarrow> t)"
         "score x = (case ref_score r of None \<Rightarrow> 0 | Some s \<Rightarrow> s)"
      by blast
    from r(1) have "ref_uri r = uri x" by (auto simp: find_Some_iff)
    with collect_uri_Some [OF x] have "storage r \<noteq> None"
      by (auto dest: ref_uri_storage)
    with r show "\<exists>r. find (\<lambda>r. ref_uri r = uri x) (all_refs cits) = Some r \<and>
               storage r \<noteq> None \<and> (ref_text r = None \<longrightarrow> snippet x = []) \<and>
               (ref_score r = None \<longrightarrow> score x = 0)"
      by (auto simp: strip_def)
  qed
  from ok img each show ?thesis by (auto simp: set_sort_desc)
qed

theorem extract_references_total_on_located_witness:
  "\<exists>out. extract_references sample_citations = Inr out \<and>
      uri ` set out = ref_uri ` {r \<in> set (all_refs sample_citations). storage r \<noteq> None} \<and>
      (\<forall>x \<in> set out. \<exists>r.
          find (\<lambda>r. ref_uri r = uri x) (all_refs sample_citations) = Some r \<and>
          storage r \<noteq> None \<and>
          (ref_text r = None \<longrightarrow> snippet x = []) \<and>
          (ref_score r = None \<longrightarrow> score x = 0))"
proof -
  have h: "\<forall>r \<in> set (all_refs sample_citations). storage r \<noteq> None \<longrightarrow> ref_uri r \<noteq> None"
    by (simp add: all_refs_def sample_citations_def storage_def ref_uri_def)
  from extract_references_total_on_located [OF h] show ?thesis .
qed

text \<open>
  Claim C7, as stated, fails: a reference whose storage location has no uri makes
  \<open>extract_references\<close> raise \<^verbatim>\<open>KeyError\<close>.
\<close>

theorem extract_references_missing_uri_raises:
  "extract_references
     [\<lparr>retrievedReferences = Some
         [\<lparr>location = Some \<lparr>s3Location = Some \<lparr>s3_uri = None\<rparr>\<rparr>,
           content = None, ref_score = None\<rparr>]\<rparr>] = Inl (KeyError ''uri'')"
  by (simp add: extract_references_def extract_one_def)

section \<open>Properties of the reference enricher\<close>

lemma enrich_Nil: "enrich e [] = []"
  by (simp add: enrich_def)

lemma enrich_Cons:
  "enrich e (r # rs) =
     (case signed_url e r of None \<Rightarrow> enrich e rs
      | Some url \<Rightarrow> r\<lparr>presigned_url := Some url\<rparr> # enrich e rs)"
  by (simp add: enrich_def split: option.splits)

lemma generate_presigned_url_fst:
  "fst (generate_presigned_url e w bucket key expiration) =
     (case s3_generate_presigned_url e
             \<lparr>ClientMethod = ''get_object'', Bucket = bucket, Key = key,
              ResponseContentDisposition = ''inline'', ExpiresIn = expiration\<rparr> of
        Inl msg \<Rightarrow> None | Inr url \<Rightarrow> Some url)"
  by (simp add: generate_presigned_url_def Let_def split: sum.splits)

lemma generate_presigned_url_calls:
  "s3_calls (snd (generate_presigned_url e w bucket key expiration)) =
     s3_calls w @ [\<lparr>ClientMethod = ''get_object'', Bucket = bucket, Key = key,
                   ResponseContentDisposition = ''inline'', ExpiresIn = expiration\<rparr>]"
  "kb_calls (snd (generate_presigned_url e w bucket key expiration)) = kb_calls w"
  by (simp_all add: generate_presigned_url_def Let_def py_print_def split: sum.splits)

text \<open>One turn of the loop, with the signing step summarised by \<open>signed_url\<close>.\<close>

lemma process_loop_step:
  "process_loop e w (r # rs) acc =
     (case uri r of
        None \<Rightarrow> process_loop e w rs acc
      | Some u \<Rightarrow>
          (case urlparse e u of
             Inl msg \<Rightarrow> (Inl (ValueError msg), w)
           | Inr (netloc, path) \<Rightarrow>
               process_loop e
                 (snd (generate_presigned_url e w (bucket_of netloc) (key_of path)
                         default_expiration))
                 rs
                 (case signed_url e r of
                    None \<Rightarrow> acc
                  | Some url \<Rightarrow> acc @ [r\<lparr>presigned_url := Some url\<rparr>])))"
  by (auto simp: signed_url_def generate_presigned_url_def Let_def
           split: option.splits sum.splits prod.splits)

lemma process_loop_unparsed:
  "\<not> parses e r \<Longrightarrow> \<exists>msg. process_loop e w (r # rs) acc = (Inl (ValueError msg), w)"
  by (auto simp: parses_def split: option.splits sum.splits)

lemma process_loop_Inr:
  "fst (process_loop e w refs acc) = Inr out \<Longrightarrow> out = acc @ enrich e refs"
proof (induction refs arbitrary: w acc)
  case Nil
  then show ?case by (simp add: enrich_Nil)
next
  case (Cons r rs)
  show ?case
  proof (cases "parses e r")
    case False
    from process_loop_unparsed [OF this, of w rs acc] Cons.prems show ?thesis by auto
  next
    case True
    show ?thesis
    proof (cases "uri r")
      case None
      with Cons.prems True have "fst (process_loop e w rs acc) = Inr out"
        by simp
      from Cons.IH [OF this] None show ?thesis
        by (simp add: enrich_Cons signed_url_def)
    next
      case (Some u)
      with True obtain netloc path where p: "urlparse e u = Inr (netloc, path)"
        by (auto simp: parses_def split: sum.splits)
      let ?w = "snd (generate_presigned_url e w (bucket_of netloc) (key_of path)
                       default_expiration)"
      let ?acc = "case signed_url e r of None \<Rightarrow> acc
                  | Some url \<Rightarrow> acc @ [r\<lparr>presigned_url := Some url\<rparr>]"
      from Cons.prems True Some p have "fst (process_loop e ?w rs ?acc) = Inr out"
        by (simp add: process_loop_step del: process_loop.simps)
      from Cons.IH [OF this] show ?thesis
        by (simp add: enrich_Cons split: option.splits)
    qed
  qed
qed

lemma process_loop_total:
  "\<forall>r \<in> set refs. parses e r \<Longrightarrow> \<exists>out. fst (process_loop e w refs acc) = Inr out"
proof (induction refs arbitrary: w acc)
  case Nil
  show ?case by simp
next
  case (Cons r rs)
  then have r: "parses e r" and rs: "\<forall>r \<in> set rs. parses e r" by simp_all
  show ?case
  proof (cases "uri r")
    case None
    with Cons.IH [OF rs, of w acc] show ?thesis by simp
  next
    case (Some u)
    with r obtain netloc path where p: "urlparse e u = Inr (netloc, path)"
      by (auto simp: parses_def split: sum.splits)
    from r Some p Cons.IH [OF rs] show ?thesis
      by (simp add: process_loop_step del: process_loop.simps)
  qed
qed

lemma process_loop_Inl:
  "fst (process_loop e w refs acc) = Inl x \<Longrightarrow> \<exists>r \<in> set refs. \<not> parses e r"
  using process_loop_total [of refs e w acc] by auto

lemma process_loop_kb_calls:
  "kb_calls (snd (process_loop e w refs acc)) = kb_calls w"
proof (induction refs arbitrary: w acc)
  case Nil
  show ?case by simp
next
  case (Cons r rs)
  show ?case
    by (simp add: process_loop_step Cons.IH generate_presigned_url_calls
             split: option.splits sum.splits prod.splits del: process_loop.simps)
qed

lemma process_loop_s3_calls:
  "\<exists>new. s3_calls (snd (process_loop e w refs acc)) = s3_calls w @ new \<and>
         (\<forall>c \<in> set new. ExpiresIn c = default_expiration)"
proof (induction refs arbitrary: w acc)
  case Nil
  show ?case by simp
next
  case (Cons r rs)
  show ?case
  proof (cases "parses e r")
    case False
    from process_loop_unparsed [OF this, of w rs acc] show ?thesis by auto
  next
    case True
    show ?thesis
    proof (cases "uri r")
      case None
      with True Cons.IH [of w acc] show ?thesis by simp
    next
      case (Some u)
      with True obtain netloc path where p: "urlparse e u = Inr (netloc, path)"
        by (auto simp: parses_def split: sum.splits)
      let ?w = "snd (generate_presigned_url e w (bucket_of netloc) (key_of path)
                       default_expiration)"
      let ?acc = "case signed_url e r of None \<Rightarrow> acc
                  | Some url \<Rightarrow> acc @ [r\<lparr>presigned_url := Some url\<rparr>]"
      from Cons.IH [of ?w ?acc] obtain new where
        new: "s3_calls (snd (process_loop e ?w rs ?acc)) = s3_calls ?w @ new"
             "\<forall>c \<in> set new. ExpiresIn c = default_expiration"
        by blast
      have "process_loop e w (r # rs) acc = process_loop e ?w rs ?acc"
        using True Some p by (simp add: process_loop_step del: process_loop.simps)
      with new show ?thesis
        by (simp add: generate_presigned_url_calls)
    qed
  qed
qed


text \<open>
  Claim C3, as amended. When the uri of every input entry parses, \<open>process_s3_urls\<close> returns,
  whatever the signing operation answers: its output is not longer than its input, every
  entry of it has a non-empty \<open>presigned_url\<close>, and it consists of the input entries for
  which signing gave a non-empty url, in the input order, each with that url; an entry for
  which signing raised is not in it.
\<close>

theorem process_s3_urls_drops_failures:
  assumes "\<forall>r \<in> set refs. parses e r"
  shows "\<exists>out w1. process_s3_urls e w refs = (Inr out, w1) \<and>
           length out \<le> length refs \<and>
           (\<forall>x \<in> set out. \<exists>url. presigned_url x = Some url \<and> url \<noteq> []) \<and>
           out = map (\<lambda>r. r\<lparr>presigned_url := signed_url e r\<rparr>)
                   (filter (\<lambda>r. signed_url e r \<noteq> None) refs)"
proof -
  from process_loop_total [OF assms, of w "[]"] obtain out where
    out: "fst (process_loop e w refs []) = Inr out" by blast
  from process_loop_Inr [OF out] have eq: "out = enrich e refs" by simp
  have url: "signed_url e r = Some u \<Longrightarrow> u \<noteq> []" for r u
    by (auto simp: signed_url_def split: option.splits sum.splits prod.splits if_splits)
  have "length out \<le> length refs"
    by (simp add: eq enrich_def)
  moreover have "\<forall>x \<in> set out. \<exists>u. presigned_url x = Some u \<and> u \<noteq> []"
    using url by (auto simp: eq enrich_def)
  moreover have "process_s3_urls e w refs = (Inr out, snd (process_loop e w refs []))"
    using out by (simp add: process_s3_urls_def prod_eq_iff)
  ultimately show ?thesis
    using eq by (auto simp: enrich_def)
qed

theorem process_s3_urls_drops_failures_witness:
  "fst (process_s3_urls demo_env w0 three_refs) =
     Inr [\<lparr>uri = Some ''s3://b/k1'', snippet = ''alpha'', score = 9/10,
            presigned_url = Some ''https://b.s3.amazonaws.com/k1''\<rparr>,
          \<lparr>uri = Some ''s3://c.d//k2'', snippet = [], score = 0,
            presigned_url = Some ''https://c.s3.amazonaws.com/k2''\<rparr>] \<and>
   (\<exists>out w1. process_s3_urls demo_env w0 three_refs = (Inr out, w1) \<and>
      length out \<le> length three_refs \<and>
      (\<forall>x \<in> set out. \<exists>url. presigned_url x = Some url \<and> url \<noteq> []) \<and>
      out = map (\<lambda>r. r\<lparr>presigned_url := signed_url demo_env r\<rparr>)
              (filter (\<lambda>r. signed_url demo_env r \<noteq> None) three_refs))"
proof -
  have h: "\<forall>r \<in> set three_refs. parses demo_env r"
    by (simp add: three_refs_def parses_def demo_env_def demo_urlparse_def)
  have run: "fst (process_s3_urls demo_env w0 three_refs) =
     Inr [\<lparr>uri = Some ''s3://b/k1'', snippet = ''alpha'', score = 9/10,
            presigned_url = Some ''https://b.s3.amazonaws.com/k1''\<rparr>,
          \<lparr>uri = Some ''s3://c.d//k2'', snippet = [], score = 0,
            presigned_url = Some ''https://c.s3.amazonaws.com/k2''\<rparr>]"
    by (simp add: process_s3_urls_def three_refs_def demo_env_def demo_urlparse_def demo_sign_def
        generate_presigned_url_def bucket_of_def key_of_def w0_def py_print_def)
  from process_s3_urls_drops_failures [OF h, of w0] run show ?thesis by blast
qed

text \<open>
  Claim C3, as stated, fails: \<^verbatim>\<open>urlparse\<close> is called outside any \<^verbatim>\<open>try\<close>, and on a uri
  whose host has an unmatched bracket it raises \<^verbatim>\<open>ValueError\<close>, so that
  \<open>process_s3_urls\<close> returns no list; no signing call has been made.
\<close>

theorem process_s3_urls_unparsed_uri_raises:
  "process_s3_urls demo_env w0
     [\<lparr>uri = Some ''s3://[b/k1'', snippet = ''alpha'', score = 9/10, presigned_url = None\<rparr>]
     = (Inl (ValueError ''Invalid IPv6 URL''), w0)"
  by (simp add: process_s3_urls_def demo_env_def demo_urlparse_def)

section \<open>The handler, case by case\<close>

lemma statusCode_create_response [simp]: "statusCode (create_response n b) = n"
  by (simp add: create_response_def)

lemma body_create_response [simp]: "body (create_response n b) = b"
  by (simp add: create_response_def)

lemma headers_create_response:
  "headers (create_response n b) =
     [(''Access-Control-Allow-Headers'',
       ''Content-Type,X-Amz-Date,Authorization,X-Api-Key,X-Amz-Security-Token''),
      (''Access-Control-Allow-Origin'', ''*''),
      (''Access-Control-Allow-Methods'', ''OPTIONS,POST''),
      (''Content-Type'', ''application/json'')]"
  by (simp add: create_response_def)

lemma get_request_data_fst:
  "fst (get_request_data e w event) =
     (case request_body e event of
        Inl x \<Rightarrow> Inl x
      | Inr b \<Rightarrow>
          (case py_get b ''user_query'' of
             Inl x \<Rightarrow> Inl x
           | Inr q \<Rightarrow> (case py_get b ''sessionId'' of Inl x \<Rightarrow> Inl x | Inr s \<Rightarrow> Inr (q, s))))"
  by (simp add: get_request_data_def Let_def split: sum.splits)

lemma get_request_data_calls:
  "kb_calls (snd (get_request_data e w event)) = kb_calls w"
  "s3_calls (snd (get_request_data e w event)) = s3_calls w"
  by (simp_all add: get_request_data_def Let_def py_print_def split: sum.splits)

lemma py_get_dict: "py_get (PDict kvs) k = Inr (case map_of kvs k of None \<Rightarrow> PNone | Some v \<Rightarrow> v)"
  by simp

lemma py_get_not_dict: "\<forall>kvs. v \<noteq> PDict kvs \<Longrightarrow> \<exists>x. py_get v k = Inl x"
  by (cases v) simp_all

lemma answer_query_Inr:
  assumes "answer_query e w q sid = (Inr resp, w2)"
  shows "\<exists>kb cits extracted refs out reply.
           retrieve_and_generate e (retrieve_request e q sid) = Inr kb \<and>
           citations kb = Some cits \<and>
           extract_references cits = Inr extracted \<and>
           process_s3_urls e (w\<lparr>kb_calls := kb_calls w @ [retrieve_request e q sid]\<rparr>) extracted
             = (Inr refs, w2) \<and>
           kb_output kb = Some out \<and> output_text out = Some reply \<and>
           resp = create_response 200
                    \<lparr>error = None,
                     generated_response = Some reply,
                     detailed_references = Some refs,
                     urlExpirationTime = Some (utcnow e + 3600),
                     sessionId = Some (case resp_sessionId kb of None \<Rightarrow> PNone
                                       | Some s \<Rightarrow> PStr s),
                     sourceCount = Some (length refs)\<rparr>"
  using assms
  by (auto simp: answer_query_def Let_def split: sum.splits option.splits prod.splits)

lemma answer_query_kb_calls:
  "kb_calls (snd (answer_query e w q sid)) = kb_calls w @ [retrieve_request e q sid]"
proof -
  have p: "kb_calls (snd (process_s3_urls e w1 refs)) = kb_calls w1" for w1 refs
    by (simp add: process_s3_urls_def process_loop_kb_calls)
  have q: "process_s3_urls e w1 refs = (r, w2) \<Longrightarrow> kb_calls w2 = kb_calls w1" for w1 refs r w2
    using p [of w1 refs] by simp
  show ?thesis
    by (auto simp: answer_query_def Let_def dest: q
             split: sum.splits option.splits prod.splits)
qed

lemma answer_query_service_down:
  "retrieve_and_generate e (retrieve_request e q sid) = Inl msg \<Longrightarrow>
     answer_query e w q sid =
       (Inl (ServiceError msg), w\<lparr>kb_calls := kb_calls w @ [retrieve_request e q sid]\<rparr>)"
  by (simp add: answer_query_def Let_def)

lemma lambda_handler_cases:
  "(\<exists>x w1. get_request_data e w event = (Inl x, w1) \<and>
       lambda_handler e w event =
         (create_response 400
            (no_keys\<lparr>error := Some (''Error processing request: '' @ str_exn x)\<rparr>), w1)) \<or>
   (\<exists>q sid w1. get_request_data e w event = (Inr (q, sid), w1) \<and> \<not> truthy q \<and>
       lambda_handler e w event =
         (create_response 400 (no_keys\<lparr>error := Some ''user_query is required''\<rparr>), w1)) \<or>
   (\<exists>q sid w1 resp w2. get_request_data e w event = (Inr (q, sid), w1) \<and> truthy q \<and>
       answer_query e w1 q sid = (Inr resp, w2) \<and> statusCode resp = 200 \<and>
       lambda_handler e w event = (resp, w2)) \<or>
   (\<exists>q sid w1 x w2. get_request_data e w event = (Inr (q, sid), w1) \<and> truthy q \<and>
       answer_query e w1 q sid = (Inl x, w2) \<and>
       lambda_handler e w event =
         (create_response 500
            \<lparr>error = Some (str_exn x),
             generated_response = Some ''An error occurred while processing your request.'',
             detailed_references = Some [],
             urlExpirationTime = None,
             sessionId = Some sid,
             sourceCount = None\<rparr>,
          py_print w2 (''Error in lambda_handler: '' @ str_exn x)))"
proof (cases "get_request_data e w event")
  case (Pair r w1)
  show ?thesis
  proof (cases r)
    case (Inl x)
    with Pair show ?thesis by (simp add: lambda_handler_def)
  next
    case (Inr p)
    obtain q sid where p: "p = (q, sid)" by (cases p)
    show ?thesis
    proof (cases "truthy q")
      case False
      with Pair Inr p show ?thesis by (simp add: lambda_handler_def)
    next
      case True
      obtain a w2 where a: "answer_query e w1 q sid = (a, w2)" by (cases "answer_query e w1 q sid")
      show ?thesis
      proof (cases a)
        case (Inl x)
        with Pair Inr p True a show ?thesis by (simp add: lambda_handler_def)
      next
        case (Inr resp)
        with a have ok: "answer_query e w1 q sid = (Inr resp, w2)" by simp
        from answer_query_Inr [OF ok] have "statusCode resp = 200" by auto
        with Pair \<open>r = Inr p\<close> p True ok show ?thesis by (simp add: lambda_handler_def)
      qed
    qed
  qed
qed

lemma query_of_None:
  assumes "query_of e event = None"
  shows "(\<exists>x. fst (get_request_data e w event) = Inl x) \<or>
         (\<exists>sid. fst (get_request_data e w event) = Inr (PNone, sid))"
proof (cases "request_body e event")
  case (Inl x)
  then show ?thesis by (simp add: get_request_data_fst)
next
  case (Inr b)
  show ?thesis
  proof (cases b)
    case (PDict kvs)
    with Inr assms have "map_of kvs ''user_query'' = None" by (simp add: query_of_def)
    with Inr PDict show ?thesis by (simp add: get_request_data_fst)
  qed (simp_all add: Inr get_request_data_fst)
qed

lemma query_of_Some:
  assumes "query_of e event = Some q"
  shows "fst (get_request_data e w event) = Inr (q, session_of e event)"
proof (cases "request_body e event")
  case (Inl x)
  with assms show ?thesis by (simp add: query_of_def)
next
  case (Inr b)
  show ?thesis
  proof (cases b)
    case (PDict kvs)
    with Inr assms have "map_of kvs ''user_query'' = Some q" by (simp add: query_of_def)
    with Inr PDict show ?thesis by (simp add: get_request_data_fst session_of_def)
  qed (use Inr assms in \<open>simp_all add: query_of_def\<close>)
qed

lemma lambda_handler_400:
  assumes "(\<exists>x. fst (get_request_data e w event) = Inl x) \<or>
           (\<exists>q sid. fst (get_request_data e w event) = Inr (q, sid) \<and> \<not> truthy q)"
  shows "statusCode (fst (lambda_handler e w event)) = 400 \<and>
         (\<exists>msg. error (body (fst (lambda_handler e w event))) = Some msg) \<and>
         kb_calls (snd (lambda_handler e w event)) = kb_calls w \<and>
         s3_calls (snd (lambda_handler e w event)) = s3_calls w"
proof -
  from assms lambda_handler_cases [of e w event] consider
    (a) x w1 where "get_request_data e w event = (Inl x, w1)"
       "lambda_handler e w event =
         (create_response 400
            (no_keys\<lparr>error := Some (''Error processing request: '' @ str_exn x)\<rparr>), w1)"
  | (b) q sid w1 where "get_request_data e w event = (Inr (q, sid), w1)"
       "lambda_handler e w event =
         (create_response 400 (no_keys\<lparr>error := Some ''user_query is required''\<rparr>), w1)"
    by fastforce
  then show ?thesis
  proof cases
    case a
    from a(1) get_request_data_calls [of e w event] have "kb_calls w1 = kb_calls w"
      "s3_calls w1 = s3_calls w" by simp_all
    with a(2) show ?thesis by simp
  next
    case b
    from b(1) get_request_data_calls [of e w event] have "kb_calls w1 = kb_calls w"
      "s3_calls w1 = s3_calls w" by simp_all
    with b(2) show ?thesis by simp
  qed
qed

lemmas demo_defs =
  demo_env_def demo_urlparse_def demo_sign_def demo_kb_def w0_def ev_query_def ev_gateway_def
  lambda_handler_def get_request_data_def request_body_def answer_query_def
  retrieve_request_def create_response_def no_keys_def py_print_def process_s3_urls_def
  generate_presigned_url_def bucket_of_def key_of_def default_expiration_def
  extract_references_def extract_one_def sort_desc_def strip_def isspace_def
  sample_citations_def locked_citations_def Let_def

section \<open>Properties of the request orchestrator\<close>

text \<open>
  Claim C6. When the event cannot be read (it is not a dictionary, its string body does
  not parse, or its body is not a dictionary) or its body has no \<open>user_query\<close> field,
  the handler answers with status 400 and a body that has an \<open>error\<close>, and it has made
  no call to the generation service, nor to the signing operation.
\<close>

theorem lambda_handler_rejects_missing_query:
  assumes "query_of e event = None"
  shows "statusCode (fst (lambda_handler e w event)) = 400 \<and>
         (\<exists>msg. error (body (fst (lambda_handler e w event))) = Some msg) \<and>
         kb_calls (snd (lambda_handler e w event)) = kb_calls w \<and>
         s3_calls (snd (lambda_handler e w event)) = s3_calls w"
proof (rule lambda_handler_400)
  from query_of_None [OF assms, of w]
  show "(\<exists>x. fst (get_request_data e w event) = Inl x) \<or>
        (\<exists>q sid. fst (get_request_data e w event) = Inr (q, sid) \<and> \<not> truthy q)"
    by auto
qed

theorem lambda_handler_rejects_missing_query_witness:
  "statusCode (fst (lambda_handler demo_env w0 (ev_gateway ''{}''))) = 400 \<and>
   (\<exists>msg. error (body (fst (lambda_handler demo_env w0 (ev_gateway ''{}'')))) = Some msg) \<and>
   kb_calls (snd (lambda_handler demo_env w0 (ev_gateway ''{}''))) = [] \<and>
   statusCode (fst (lambda_handler demo_env w0 (ev_gateway ''user_query''))) = 400 \<and>
   kb_calls (snd (lambda_handler demo_env w0 (ev_gateway ''user_query''))) = [] \<and>
   statusCode (fst (lambda_handler demo_env w0 (PList []))) = 400 \<and>
   kb_calls (snd (lambda_handler demo_env w0 (PList []))) = []"
proof -
  have a: "query_of demo_env (ev_gateway ''{}'') = None"
    by (simp add: query_of_def request_body_def ev_gateway_def demo_env_def)
  have b: "query_of demo_env (ev_gateway ''user_query'') = None"
    by (simp add: query_of_def request_body_def ev_gateway_def demo_env_def)
  have c: "query_of demo_env (PList []) = None"
    by (simp add: query_of_def request_body_def)
  have w: "kb_calls w0 = []"
    by (simp add: w0_def)
  from lambda_handler_rejects_missing_query [OF a, of w0]
    lambda_handler_rejects_missing_query [OF b, of w0]
    lambda_handler_rejects_missing_query [OF c, of w0] w
  show ?thesis by simp
qed

text \<open>
  Claim C10. When the body has a \<open>user_query\<close> field whose value is falsy (the empty
  string, \<^verbatim>\<open>null\<close>, zero, \<^verbatim>\<open>false\<close>, an empty list or dictionary), the handler answers
  with status 400 and the error \<^verbatim>\<open>user_query is required\<close>, and it has made no call to
  the generation service.
\<close>

theorem lambda_handler_rejects_empty_query:
  assumes "query_of e event = Some q" and "\<not> truthy q"
  shows "statusCode (fst (lambda_handler e w event)) = 400 \<and>
         error (body (fst (lambda_handler e w event))) = Some ''user_query is required'' \<and>
         kb_calls (snd (lambda_handler e w event)) = kb_calls w \<and>
         s3_calls (snd (lambda_handler e w event)) = s3_calls w"
proof -
  from query_of_Some [OF assms(1), of w]
  have g: "fst (get_request_data e w event) = Inr (q, session_of e event)" .
  then have "(\<exists>x. fst (get_request_data e w event) = Inl x) \<or>
        (\<exists>q sid. fst (get_request_data e w event) = Inr (q, sid) \<and> \<not> truthy q)"
    using assms(2) by auto
  from lambda_handler_400 [OF this]
  have rest: "statusCode (fst (lambda_handler e w event)) = 400"
    "kb_calls (snd (lambda_handler e w event)) = kb_calls w"
    "s3_calls (snd (lambda_handler e w event)) = s3_calls w"
    by simp_all
  obtain w1 where "get_request_data e w event = (Inr (q, session_of e event), w1)"
    using g by (cases "get_request_data e w event") simp
  with assms(2) have "error (body (fst (lambda_handler e w event))) = Some ''user_query is required''"
    by (simp add: lambda_handler_def no_keys_def)
  with rest show ?thesis by simp
qed

theorem lambda_handler_rejects_empty_query_witness:
  "statusCode (fst (lambda_handler demo_env w0 (ev_query []))) = 400 \<and>
   error (body (fst (lambda_handler demo_env w0 (ev_query [])))) = Some ''user_query is required'' \<and>
   kb_calls (snd (lambda_handler demo_env w0 (ev_query []))) = [] \<and>
   s3_calls (snd (lambda_handler demo_env w0 (ev_query []))) = []"
proof -
  have a: "query_of demo_env (ev_query []) = Some (PStr [])"
    by (simp add: query_of_def request_body_def ev_query_def)
  have b: "\<not> truthy (PStr [])"
    by simp
  have w: "kb_calls w0 = []" "s3_calls w0 = []"
    by (simp_all add: w0_def)
  from lambda_handler_rejects_empty_query [OF a b, of w0] w
  show ?thesis by simp
qed

text \<open>
  Claim C9. Every response of the handler has the same headers, among them the three
  cross-origin headers, and its status is 400, 200 or 500.
\<close>

theorem lambda_handler_cors_headers:
  "headers (fst (lambda_handler e w event)) =
     [(''Access-Control-Allow-Headers'',
       ''Content-Type,X-Amz-Date,Authorization,X-Api-Key,X-Amz-Security-Token''),
      (''Access-Control-Allow-Origin'', ''*''),
      (''Access-Control-Allow-Methods'', ''OPTIONS,POST''),
      (''Content-Type'', ''application/json'')] \<and>
   map_of (headers (fst (lambda_handler e w event))) ''Access-Control-Allow-Origin'' = Some ''*'' \<and>
   map_of (headers (fst (lambda_handler e w event))) ''Access-Control-Allow-Headers'' =
     Some ''Content-Type,X-Amz-Date,Authorization,X-Api-Key,X-Amz-Security-Token'' \<and>
   map_of (headers (fst (lambda_handler e w event))) ''Access-Control-Allow-Methods'' =
     Some ''OPTIONS,POST'' \<and>
   (statusCode (fst (lambda_handler e w event)) = 400 \<or>
    statusCode (fst (lambda_handler e w event)) = 200 \<or>
    statusCode (fst (lambda_handler e w event)) = 500)"
proof -
  from lambda_handler_cases [of e w event]
  obtain n b where r: "fst (lambda_handler e w event) = create_response n b"
    and n: "n = 400 \<or> n = 200 \<or> n = 500"
  proof (elim disjE exE conjE)
    fix q sid w1 resp w2
    assume ok: "answer_query e w1 q sid = (Inr resp, w2)"
      and l: "lambda_handler e w event = (resp, w2)"
      and t: "\<And>n b. fst (lambda_handler e w event) = create_response n b \<Longrightarrow>
                n = 400 \<or> n = 200 \<or> n = 500 \<Longrightarrow> thesis"
    from answer_query_Inr [OF ok] obtain b where "resp = create_response 200 b" by blast
    with l t show thesis by simp
  qed (simp_all)
  have h: "headers (fst (lambda_handler e w event)) =
     [(''Access-Control-Allow-Headers'',
       ''Content-Type,X-Amz-Date,Authorization,X-Api-Key,X-Amz-Security-Token''),
      (''Access-Control-Allow-Origin'', ''*''),
      (''Access-Control-Allow-Methods'', ''OPTIONS,POST''),
      (''Content-Type'', ''application/json'')]"
    by (simp only: r headers_create_response)
  have s: "statusCode (fst (lambda_handler e w event)) = n"
    by (simp add: r)
  show ?thesis
    unfolding h s using n by simp
qed

text \<open>
  Claim C5, as amended. When the query is valid and the call to the generation service or
  the processing of its answer raises an exception, the handler answers with status 500 and
  a body that has the exception's own message under \<open>error\<close>, the generic message under
  \<open>generated_response\<close>, an empty \<open>detailed_references\<close>, and under \<open>sessionId\<close> the
  request's session identifier, \<^verbatim>\<open>null\<close> when it has none; the message is printed too.
  When it is the service that raised, that message is the service's.
\<close>

theorem lambda_handler_failure_envelope:
  assumes "query_of e event = Some q" and "truthy q"
    and "answer_query e (snd (get_request_data e w event)) q (session_of e event) = (Inl x, w2)"
  shows "statusCode (fst (lambda_handler e w event)) = 500 \<and>
         body (fst (lambda_handler e w event)) =
           \<lparr>error = Some (str_exn x),
            generated_response = Some ''An error occurred while processing your request.'',
            detailed_references = Some [],
            urlExpirationTime = None,
            sessionId = Some (session_of e event),
            sourceCount = None\<rparr> \<and>
         printed (snd (lambda_handler e w event)) =
           printed w2 @ [''Error in lambda_handler: '' @ str_exn x] \<and>
         (\<forall>msg. retrieve_and_generate e (retrieve_request e q (session_of e event)) = Inl msg
            \<longrightarrow> x = ServiceError msg \<and>
                error (body (fst (lambda_handler e w event))) = Some msg)"
proof -
  let ?sid = "session_of e event"
  obtain w1 where g: "get_request_data e w event = (Inr (q, ?sid), w1)"
    using query_of_Some [OF assms(1), of w] by (cases "get_request_data e w event") simp
  with assms(3) have a: "answer_query e w1 q ?sid = (Inl x, w2)" by simp
  from g a assms(2) have l: "lambda_handler e w event =
         (create_response 500
            \<lparr>error = Some (str_exn x),
             generated_response = Some ''An error occurred while processing your request.'',
             detailed_references = Some [],
             urlExpirationTime = None,
             sessionId = Some ?sid,
             sourceCount = None\<rparr>,
          py_print w2 (''Error in lambda_handler: '' @ str_exn x))"
    by (simp add: lambda_handler_def)
  have down: "x = ServiceError msg"
    if "retrieve_and_generate e (retrieve_request e q ?sid) = Inl msg" for msg
    using answer_query_service_down [OF that, of w1] a by simp
  show ?thesis
    using down by (simp add: l py_print_def)
qed

theorem lambda_handler_failure_envelope_witness:
  "statusCode (fst (lambda_handler demo_env w0 (ev_query ''down''))) = 500 \<and>
   body (fst (lambda_handler demo_env w0 (ev_query ''down''))) =
     \<lparr>error = Some ''An error occurred (ThrottlingException) when calling the RetrieveAndGenerate operation'',
      generated_response = Some ''An error occurred while processing your request.'',
      detailed_references = Some [],
      urlExpirationTime = None,
      sessionId = Some (PStr ''sess-0''),
      sourceCount = None\<rparr>"
proof -
  let ?ev = "ev_query ''down''"
  let ?x = "ServiceError ''An error occurred (ThrottlingException) when calling the RetrieveAndGenerate operation''"
  let ?a = "answer_query demo_env (snd (get_request_data demo_env w0 ?ev)) (PStr ''down'')
              (session_of demo_env ?ev)"
  have a: "query_of demo_env ?ev = Some (PStr ''down'')"
    by (simp add: query_of_def request_body_def ev_query_def)
  have b: "truthy (PStr ''down'')"
    by simp
  have s: "session_of demo_env ?ev = PStr ''sess-0''"
    by (simp add: session_of_def request_body_def ev_query_def)
  have "fst ?a = Inl ?x"
    by (simp add: answer_query_def retrieve_request_def demo_env_def demo_kb_def Let_def)
  then have c: "?a = (Inl ?x, snd ?a)"
    by (simp add: prod_eq_iff)
  from lambda_handler_failure_envelope [OF a b c] s
  show ?thesis by simp
qed

text \<open>
  Claim C5, as stated, fails: the message of the service's exception is in the body that
  the caller receives.
\<close>

theorem lambda_handler_surfaces_exception_detail:
  "error (body (fst (lambda_handler demo_env w0 (ev_query ''down'')))) =
     Some ''An error occurred (ThrottlingException) when calling the RetrieveAndGenerate operation''"
  by (simp add: demo_defs)

text \<open>
  Claim C8. In a response with status 200, \<open>generated_response\<close> is the text the
  generation service returned, \<open>detailed_references\<close> are the extracted entries for which
  signing gave a url, and \<open>sourceCount\<close> is their number; when signing gave no url for
  any extracted entry, the list is empty and the count is 0.
\<close>

theorem lambda_handler_success_envelope:
  assumes "statusCode (fst (lambda_handler e w event)) = 200"
  shows "\<exists>req kb out reply cits extracted refs.
           kb_calls (snd (lambda_handler e w event)) = kb_calls w @ [req] \<and>
           retrieve_and_generate e req = Inr kb \<and>
           kb_output kb = Some out \<and> output_text out = Some reply \<and>
           citations kb = Some cits \<and> extract_references cits = Inr extracted \<and>
           generated_response (body (fst (lambda_handler e w event))) = Some reply \<and>
           detailed_references (body (fst (lambda_handler e w event))) = Some refs \<and>
           sourceCount (body (fst (lambda_handler e w event))) = Some (length refs) \<and>
           refs = map (\<lambda>r. r\<lparr>presigned_url := signed_url e r\<rparr>)
                    (filter (\<lambda>r. signed_url e r \<noteq> None) extracted) \<and>
           ((\<forall>r \<in> set extracted. signed_url e r = None) \<longrightarrow>
              detailed_references (body (fst (lambda_handler e w event))) = Some [] \<and>
              sourceCount (body (fst (lambda_handler e w event))) = Some 0)"
proof -
  from assms lambda_handler_cases [of e w event]
  obtain q sid w1 resp w2 where
    g: "get_request_data e w event = (Inr (q, sid), w1)" and
    a: "answer_query e w1 q sid = (Inr resp, w2)" and
    l: "lambda_handler e w event = (resp, w2)"
    by auto
  let ?req = "retrieve_request e q sid"
  from answer_query_Inr [OF a] obtain kb cits extracted refs out reply where
    kb: "retrieve_and_generate e ?req = Inr kb" and
    cits: "citations kb = Some cits" and
    ex: "extract_references cits = Inr extracted" and
    pr: "process_s3_urls e (w1\<lparr>kb_calls := kb_calls w1 @ [?req]\<rparr>) extracted = (Inr refs, w2)" and
    out: "kb_output kb = Some out" "output_text out = Some reply" and
    resp: "resp = create_response 200
                    \<lparr>error = None,
                     generated_response = Some reply,
                     detailed_references = Some refs,
                     urlExpirationTime = Some (utcnow e + 3600),
                     sessionId = Some (case resp_sessionId kb of None \<Rightarrow> PNone
                                       | Some s \<Rightarrow> PStr s),
                     sourceCount = Some (length refs)\<rparr>"
    by blast
  from pr have "fst (process_loop e (w1\<lparr>kb_calls := kb_calls w1 @ [?req]\<rparr>) extracted []) = Inr refs"
    by (simp add: process_s3_urls_def)
  from process_loop_Inr [OF this] have refs: "refs = enrich e extracted" by simp
  have calls: "kb_calls (snd (lambda_handler e w event)) = kb_calls w @ [?req]"
    using answer_query_kb_calls [of e w1 q sid] a l g get_request_data_calls(1) [of e w event]
    by simp
  have none: "enrich e extracted = []" if "\<forall>r \<in> set extracted. signed_url e r = None"
    using that by (simp add: enrich_def)
  show ?thesis
  proof (intro exI conjI)
    show "kb_calls (snd (lambda_handler e w event)) = kb_calls w @ [?req]" by (rule calls)
    show "retrieve_and_generate e ?req = Inr kb" by (rule kb)
    show "kb_output kb = Some out" "output_text out = Some reply" by (rule out)+
    show "citations kb = Some cits" by (rule cits)
    show "extract_references cits = Inr extracted" by (rule ex)
    show "generated_response (body (fst (lambda_handler e w event))) = Some reply"
      by (simp add: l resp)
    show "detailed_references (body (fst (lambda_handler e w event))) = Some refs"
      by (simp add: l resp)
    show "sourceCount (body (fst (lambda_handler e w event))) = Some (length refs)"
      by (simp add: l resp)
    show "refs = map (\<lambda>r. r\<lparr>presigned_url := signed_url e r\<rparr>)
                    (filter (\<lambda>r. signed_url e r \<noteq> None) extracted)"
      by (simp add: refs enrich_def)
    show "(\<forall>r \<in> set extracted. signed_url e r = None) \<longrightarrow>
              detailed_references (body (fst (lambda_handler e w event))) = Some [] \<and>
              sourceCount (body (fst (lambda_handler e w event))) = Some 0"
      using none by (simp add: l resp refs)
  qed
qed

theorem lambda_handler_success_envelope_witness:
  "statusCode (fst (lambda_handler demo_env w0 (ev_query ''locked''))) = 200 \<and>
   body (fst (lambda_handler demo_env w0 (ev_query ''locked''))) =
     \<lparr>error = None, generated_response = Some ''The answer.'', detailed_references = Some [],
      urlExpirationTime = Some 1700003600, sessionId = Some (PStr ''sess-1''),
      sourceCount = Some 0\<rparr> \<and>
   (\<exists>req kb out reply cits extracted refs.
       kb_calls (snd (lambda_handler demo_env w0 (ev_query ''locked''))) = kb_calls w0 @ [req] \<and>
       retrieve_and_generate demo_env req = Inr kb \<and>
       kb_output kb = Some out \<and> output_text out = Some reply \<and>
       citations kb = Some cits \<and> extract_references cits = Inr extracted \<and>
       generated_response (body (fst (lambda_handler demo_env w0 (ev_query ''locked'')))) =
         Some reply \<and>
       detailed_references (body (fst (lambda_handler demo_env w0 (ev_query ''locked'')))) =
         Some refs \<and>
       sourceCount (body (fst (lambda_handler demo_env w0 (ev_query ''locked'')))) =
         Some (length refs) \<and>
       refs = map (\<lambda>r. r\<lparr>presigned_url := signed_url demo_env r\<rparr>)
                (filter (\<lambda>r. signed_url demo_env r \<noteq> None) extracted) \<and>
       ((\<forall>r \<in> set extracted. signed_url demo_env r = None) \<longrightarrow>
          detailed_references (body (fst (lambda_handler demo_env w0 (ev_query ''locked'')))) =
            Some [] \<and>
          sourceCount (body (fst (lambda_handler demo_env w0 (ev_query ''locked'')))) = Some 0))"
proof -
  have s: "statusCode (fst (lambda_handler demo_env w0 (ev_query ''locked''))) = 200"
    by (simp add: demo_defs)
  have g: "body (fst (lambda_handler demo_env w0 (ev_query ''locked''))) =
     \<lparr>error = None, generated_response = Some ''The answer.'', detailed_references = Some [],
      urlExpirationTime = Some 1700003600, sessionId = Some (PStr ''sess-1''),
      sourceCount = Some 0\<rparr>"
    by (simp add: demo_defs)
  from lambda_handler_success_envelope [OF s] s g show ?thesis by blast
qed

text \<open>
  Claim C4. The enricher asks the signing operation for urls that expire after 1800
  seconds, the default of \<open>generate_presigned_url\<close>, whereas the response announces an
  expiration 3600 seconds after the clock reading: run on one entry, and on a whole request,
  every signing call has \<open>ExpiresIn = 1800\<close>.
\<close>

theorem enrichment_signs_for_1800_seconds:
  "s3_calls (snd (process_s3_urls demo_env w0
      [\<lparr>uri = Some ''s3://b/k1'', snippet = [], score = 9/10, presigned_url = None\<rparr>])) =
     [\<lparr>ClientMethod = ''get_object'', Bucket = ''b'', Key = ''k1'',
       ResponseContentDisposition = ''inline'', ExpiresIn = 1800\<rparr>] \<and>
   map ExpiresIn (s3_calls (snd (lambda_handler demo_env w0 (ev_query ''What is X?'')))) =
     [1800, 1800, 1800, 1800] \<and>
   urlExpirationTime (body (fst (lambda_handler demo_env w0 (ev_query ''What is X?'')))) =
     Some (utcnow demo_env + 3600)"
  by (simp add: process_s3_urls_def demo_env_def demo_urlparse_def demo_sign_def
        generate_presigned_url_def bucket_of_def key_of_def w0_def py_print_def
        default_expiration_def lambda_handler_def get_request_data_def request_body_def
        ev_query_def answer_query_def retrieve_request_def demo_kb_def create_response_def
        extract_references_def extract_one_def sample_citations_def sort_desc_def strip_def
        isspace_def Let_def)

end
